theory Spec2Isabelle
  imports Main
begin

section \<open>JavaScript values\<close>

text \<open>
  The validator receives \<open>data: any\<close>. The values of the model are the JSON-like values
  together with \<open>undefined\<close>, \<open>NaN\<close> and functions (a function is known by a name only).
  Numbers other than \<open>NaN\<close> are restricted to the integers (meant are those below
  \<open>2^53\<close> in magnitude, which a double holds exactly and writes without exponent),
  strings to ASCII, and an object is the list of its own enumerable properties in
  enumeration order (\<open>for ... in\<close> order); a well-formed object has distinct keys. Every
  object is a plain object: its prototype is \<open>Object.prototype\<close>.
\<close>

datatype jsval =
    VUndefined
  | VNull
  | VBool bool
  | VNum int
  | VNaN
  | VStr string
  | VArr "jsval list"
  | VObj "(string \<times> jsval) list"
  | VFunction string

datatype exn = TypeError

type_synonym obj = "(string \<times> jsval) list"

fun js_typeof :: "jsval \<Rightarrow> string" where
  "js_typeof VUndefined = ''undefined''"
| "js_typeof VNull = ''object''"
| "js_typeof (VBool b) = ''boolean''"
| "js_typeof (VNum n) = ''number''"
| "js_typeof VNaN = ''number''"
| "js_typeof (VStr s) = ''string''"
| "js_typeof (VArr xs) = ''object''"
| "js_typeof (VObj kvs) = ''object''"
| "js_typeof (VFunction f) = ''function''"

fun isArray :: "jsval \<Rightarrow> bool" where
  "isArray (VArr xs) = True"
| "isArray v = False"

fun isNaN :: "jsval \<Rightarrow> bool" where
  "isNaN VNaN = True"
| "isNaN v = False"

subsection \<open>Numbers in template strings\<close>

definition digit_char :: "nat \<Rightarrow> char" where
  "digit_char d = ''0123456789'' ! d"

fun show_nat :: "nat \<Rightarrow> string" where
  "show_nat n = (if n < 10 then [digit_char n] else show_nat (n div 10) @ [digit_char (n mod 10)])"

declare show_nat.simps [simp del]

definition show_int :: "int \<Rightarrow> string" where
  "show_int i = (if i < 0 then ''-'' @ show_nat (nat (- i)) else show_nat (nat i))"

subsection \<open>Property access and enumeration\<close>

text \<open>
  The members that every value inherits from \<open>Object.prototype\<close>: its methods, which are
  functions, and the accessor \<open>__proto__\<close>, which reads as the prototype object (an object
  without enumerable property). None of them is enumerable. The validator only ever
  compares an inherited member with \<open>undefined\<close> and \<open>null\<close>. The further members that
  arrays, strings, numbers and booleans inherit from their own prototypes (\<open>map\<close>,
  \<open>charAt\<close>, \<open>toFixed\<close>, ...) are not modelled.
\<close>

definition object_prototype_methods :: "string list" where
  "object_prototype_methods =
     [''constructor'', ''__defineGetter__'', ''__defineSetter__'', ''hasOwnProperty'',
      ''__lookupGetter__'', ''__lookupSetter__'', ''isPrototypeOf'', ''propertyIsEnumerable'',
      ''toString'', ''valueOf'', ''toLocaleString'']"

definition inherited_names :: "string list" where
  "inherited_names = object_prototype_methods @ [''__proto__'']"

definition inherited :: "string \<Rightarrow> jsval" where
  "inherited k =
     (if k \<in> set object_prototype_methods then VFunction k
      else if k = ''__proto__'' then VObj []
      else VUndefined)"

text \<open>The value of the own property \<open>k\<close> of an object, \<open>undefined\<close> when it has none.\<close>

definition obj_get :: "obj \<Rightarrow> string \<Rightarrow> jsval" where
  "obj_get kvs k = (case map_of kvs k of Some v \<Rightarrow> v | None \<Rightarrow> VUndefined)"

text \<open>The read \<open>o[k]\<close> on an object: the own property, or else the inherited member.\<close>

definition js_get :: "obj \<Rightarrow> string \<Rightarrow> jsval" where
  "js_get kvs k = (case map_of kvs k of Some v \<Rightarrow> v | None \<Rightarrow> inherited k)"

text \<open>
  \<open>result[k] = v\<close>: an existing property keeps its place, a new one is added last
  (JavaScript enumerates a new integer-like key before the string keys; no property
  below depends on the order of the output's keys). An
  assignment to \<open>__proto__\<close> sets the prototype of \<open>result\<close> instead of a property; the
  model does not follow this and stores a property of that name like any other. Pass 2
  makes such an assignment only for data with an own property \<open>__proto__\<close> (as
  \<open>JSON.parse\<close> or a computed key can create), and the properties C4 and C9 about the
  output are stated for data without one.
\<close>

fun obj_set :: "obj \<Rightarrow> string \<Rightarrow> jsval \<Rightarrow> obj" where
  "obj_set [] k v = [(k, v)]"
| "obj_set ((k', v') # kvs) k v = (if k' = k then (k, v) # kvs else (k', v') # obj_set kvs k v)"

definition array_index :: "string \<Rightarrow> nat \<Rightarrow> nat option" where
  "array_index k n = find (\<lambda>i. show_nat i = k) [0..<n]"

text \<open>
  \<open>data[k]\<close>. Reading a property of \<open>null\<close> or \<open>undefined\<close> throws a TypeError; arrays and
  strings have their indices and \<open>length\<close> as own properties; numbers, booleans and
  functions are read as having no own property (the own properties \<open>length\<close>, \<open>name\<close>
  and \<open>prototype\<close> of a function are not modelled). What is not an own property is read
  from \<open>Object.prototype\<close>.
\<close>

fun get_prop :: "jsval \<Rightarrow> string \<Rightarrow> exn + jsval" where
  "get_prop VUndefined k = Inl TypeError"
| "get_prop VNull k = Inl TypeError"
| "get_prop (VObj kvs) k = Inr (js_get kvs k)"
| "get_prop (VArr xs) k =
     Inr (case array_index k (length xs) of
            Some i \<Rightarrow> xs ! i
          | None \<Rightarrow> if k = ''length'' then VNum (int (length xs)) else inherited k)"
| "get_prop (VStr s) k =
     Inr (case array_index k (length s) of
            Some i \<Rightarrow> VStr [s ! i]
          | None \<Rightarrow> if k = ''length'' then VNum (int (length s)) else inherited k)"
| "get_prop (VBool b) k = Inr (inherited k)"
| "get_prop (VNum n) k = Inr (inherited k)"
| "get_prop VNaN k = Inr (inherited k)"
| "get_prop (VFunction f) k = Inr (inherited k)"

text \<open>The keys \<open>for (const k in data)\<close> visits, in order.\<close>

fun for_in_keys :: "jsval \<Rightarrow> string list" where
  "for_in_keys (VObj kvs) = map fst kvs"
| "for_in_keys (VArr xs) = map show_nat [0..<length xs]"
| "for_in_keys (VStr s) = map show_nat [0..<length s]"
| "for_in_keys v = []"

section \<open>Schemas (types.ts)\<close>

text \<open>
  The six types of a field, and \<open>TUndefined\<close> for a field specification without a \<open>type\<close>
  (the \<open>default\<close> branch of \<open>validateType\<close>).
\<close>

datatype field_type = TString | TNumber | TBoolean | TObject | TArray | TAny | TUndefined

fun type_name :: "field_type \<Rightarrow> string" where
  "type_name TString = ''string''"
| "type_name TNumber = ''number''"
| "type_name TBoolean = ''boolean''"
| "type_name TObject = ''object''"
| "type_name TArray = ''array''"
| "type_name TAny = ''any''"
| "type_name TUndefined = ''undefined''"

datatype rule_message = MessageString string | MessageFunction "jsval \<Rightarrow> string \<Rightarrow> string"

record ValidationRule =
  rule_validate :: "jsval \<Rightarrow> bool"
  rule_message :: rule_message

record ValidationError =
  field :: string
  message :: string
  err_value :: jsval

record ValidationResult =
  valid :: bool
  errors :: "ValidationError list"
  data :: jsval

text \<open>The three options of the constructor.\<close>

datatype mode = First | All

record config =
  transformEnabled :: bool
  strictMode :: bool
  errorCollectionMode :: mode

text \<open>
  \<open>default?: T | (() => T)\<close>: a literal or a function of no argument; a field without a
  default has the literal \<open>undefined\<close>.
\<close>

datatype default_spec = DefaultValue jsval | DefaultFunction "unit \<Rightarrow> jsval"

text \<open>
  A \<open>SchemaField\<close>; an optional boolean that is left out reads as \<open>False\<close>, left-out
  \<open>rules\<close> as the empty list. A \<open>SchemaDefinition\<close> is the list of its fields in
  enumeration order, with distinct names.
\<close>

datatype SchemaField = SchemaField
  (ftype: field_type)
  (required: bool)
  (nullable: bool)
  (rules: "ValidationRule list")
  (transform: "(jsval \<Rightarrow> jsval) option")
  (dflt: default_spec)
  (fields: "(string \<times> SchemaField) list option")
  (items: "SchemaField option")

type_synonym SchemaDefinition = "(string \<times> SchemaField) list"

text \<open>
  \<open>this.schema[k]\<close>. The schema is a plain object too: for a name it does not declare, the
  read yields the member inherited from \<open>Object.prototype\<close> if there is one. That member
  is truthy, and each property the validator reads from it (\<open>type\<close>, \<open>required\<close>,
  \<open>nullable\<close>, \<open>rules\<close>, \<open>transform\<close>, \<open>default\<close>, \<open>fields\<close>, \<open>items\<close>) is \<open>undefined\<close>:
  it acts as the field specification \<open>inherited_field\<close>.
\<close>

definition inherited_field :: SchemaField where
  "inherited_field = SchemaField TUndefined False False [] None (DefaultValue VUndefined) None None"

definition schema_lookup :: "SchemaDefinition \<Rightarrow> string \<Rightarrow> SchemaField option" where
  "schema_lookup schema k =
     (case map_of schema k of
        Some f \<Rightarrow> Some f
      | None \<Rightarrow> if k \<in> set inherited_names then Some inherited_field else None)"

section \<open>The validator (validator.ts)\<close>

text \<open>The constructor's defaults: \<open>options?.x ?? default\<close>.\<close>

definition default_config :: config where
  "default_config = \<lparr>transformEnabled = True, strictMode = False, errorCollectionMode = All\<rparr>"

text \<open>
  A pass of \<open>validate\<close> either throws, returns from \<open>validate\<close> at once, or goes on to the
  next pass with its state.
\<close>

datatype 'a control = Throw exn | Return ValidationResult | Continue 'a

definition apos :: string where
  "apos = [CHR 0x27]"

definition required_error :: "string \<Rightarrow> ValidationError" where
  "required_error fieldName =
     \<lparr>field = fieldName,
      message = ''Field '' @ apos @ fieldName @ apos @ '' is required'',
      err_value = VUndefined\<rparr>"

definition unknown_error :: "string \<Rightarrow> jsval \<Rightarrow> ValidationError" where
  "unknown_error fieldName v =
     \<lparr>field = fieldName,
      message = ''Unknown field '' @ apos @ fieldName @ apos,
      err_value = v\<rparr>"

definition null_error :: "string \<Rightarrow> ValidationError" where
  "null_error fieldName =
     \<lparr>field = fieldName,
      message = ''Field '' @ apos @ fieldName @ apos @ '' cannot be null'',
      err_value = VNull\<rparr>"

definition type_error :: "string \<Rightarrow> field_type \<Rightarrow> jsval \<Rightarrow> ValidationError" where
  "type_error fieldName t v =
     \<lparr>field = fieldName,
      message = ''Field '' @ apos @ fieldName @ apos @ '' must be of type '' @ type_name t,
      err_value = v\<rparr>"

definition failed :: "ValidationError list \<Rightarrow> ValidationResult" where
  "failed errs = \<lparr>valid = False, errors = errs, data = VNull\<rparr>"

fun validateType :: "jsval \<Rightarrow> SchemaField \<Rightarrow> bool" where
  "validateType v fieldSchema =
     (case ftype fieldSchema of
        TString \<Rightarrow> js_typeof v = ''string''
      | TNumber \<Rightarrow> js_typeof v = ''number'' \<and> \<not> isNaN v
      | TBoolean \<Rightarrow> js_typeof v = ''boolean''
      | TObject \<Rightarrow> js_typeof v = ''object'' \<and> v \<noteq> VNull \<and> \<not> isArray v
      | TArray \<Rightarrow> isArray v
      | TAny \<Rightarrow> True
      | TUndefined \<Rightarrow> False)"

text \<open>Pass 1 of \<open>validate\<close>: the loop over the schema that reports missing required fields.\<close>

fun required_pass ::
  "config \<Rightarrow> SchemaDefinition \<Rightarrow> jsval \<Rightarrow> ValidationError list \<Rightarrow> ValidationError list control"
where
  "required_pass cfg [] d errs = Continue errs"
| "required_pass cfg ((fieldName, fld) # rest) d errs =
     (if required fld then
        (case get_prop d fieldName of
           Inl e \<Rightarrow> Throw e
         | Inr v \<Rightarrow>
             if v = VUndefined \<or> (v = VNull \<and> \<not> nullable fld) then
               if errorCollectionMode cfg = First \<and> length (errs @ [required_error fieldName]) > 0
               then Return (failed (errs @ [required_error fieldName]))
               else required_pass cfg rest d (errs @ [required_error fieldName])
             else required_pass cfg rest d errs)
      else required_pass cfg rest d errs)"

text \<open>Pass 3 of \<open>validate\<close>: the loop over the schema that fills in defaults.\<close>

fun default_undefined :: "default_spec \<Rightarrow> bool" where
  "default_undefined (DefaultValue v) = (v = VUndefined)"
| "default_undefined (DefaultFunction f) = False"

fun default_of :: "default_spec \<Rightarrow> jsval" where
  "default_of (DefaultFunction f) = f ()"
| "default_of (DefaultValue v) = v"

fun default_pass :: "SchemaDefinition \<Rightarrow> obj \<Rightarrow> obj" where
  "default_pass [] result = result"
| "default_pass ((fieldName, fld) # rest) result =
     (if js_get result fieldName = VUndefined \<and> \<not> default_undefined (dflt fld)
      then default_pass rest (obj_set result fieldName (default_of (dflt fld)))
      else default_pass rest result)"

text \<open>The rule chain at the end of \<open>validateField\<close>.\<close>

definition rule_error :: "ValidationRule \<Rightarrow> string \<Rightarrow> jsval \<Rightarrow> ValidationError" where
  "rule_error rule fieldName v =
     \<lparr>field = fieldName,
      message = (case rule_message rule of
                   MessageFunction f \<Rightarrow> f v fieldName
                 | MessageString s \<Rightarrow> s),
      err_value = v\<rparr>"

fun rule_chain ::
  "config \<Rightarrow> string \<Rightarrow> jsval \<Rightarrow> ValidationRule list \<Rightarrow> ValidationError list \<Rightarrow> ValidationError list"
where
  "rule_chain cfg fieldName v [] errs = errs"
| "rule_chain cfg fieldName v (rule # rest) errs =
     (if \<not> rule_validate rule v then
        if errorCollectionMode cfg = First
        then errs @ [rule_error rule fieldName v]
        else rule_chain cfg fieldName v rest (errs @ [rule_error rule fieldName v])
      else rule_chain cfg fieldName v rest errs)"

definition prefix_error :: "string \<Rightarrow> ValidationError \<Rightarrow> ValidationError" where
  "prefix_error p e = \<lparr>field = p @ ''.'' @ field e, message = message e, err_value = err_value e\<rparr>"

definition item_name :: "string \<Rightarrow> nat \<Rightarrow> string" where
  "item_name fieldName index = fieldName @ ''['' @ show_nat index @ '']''"

definition stored_value :: "config \<Rightarrow> SchemaField \<Rightarrow> jsval \<Rightarrow> jsval" where
  "stored_value cfg fld v =
     (if transformEnabled cfg then (case transform fld of Some t \<Rightarrow> t v | None \<Rightarrow> v) else v)"

text \<open>The nesting of the schema bounds the recursion.\<close>

function field_size :: "SchemaField \<Rightarrow> nat" and schema_size :: "SchemaDefinition \<Rightarrow> nat" where
  "field_size (SchemaField t r n rs tr d fs it) =
     Suc (max (case fs of None \<Rightarrow> 0 | Some sub \<Rightarrow> schema_size sub)
              (case it of None \<Rightarrow> 0 | Some itemSchema \<Rightarrow> field_size itemSchema))"
| "schema_size [] = 2"
| "schema_size ((k, f) # rest) = max (Suc (field_size f)) (schema_size rest)"
  by pat_completeness auto

termination
  by (relation "measure (\<lambda>x. case x of Inl f \<Rightarrow> size f
                                      | Inr s \<Rightarrow> size_list (size_prod (\<lambda>_. 0) size) s)")
     auto

lemma schema_size_ge: "2 \<le> schema_size schema"
  by (induction schema) auto

lemma size_map_of_field: "map_of schema k = Some f \<Longrightarrow> field_size f < schema_size schema"
  by (induction schema) (auto split: if_splits simp: less_max_iff_disj)

lemma size_lookup_field: "schema_lookup schema k = Some f \<Longrightarrow> field_size f < schema_size schema"
  using size_map_of_field[of schema k f] schema_size_ge[of schema]
  by (auto simp: schema_lookup_def inherited_field_def split: option.splits if_splits)

lemma size_fields: "fields f = Some sub \<Longrightarrow> schema_size sub < field_size f"
  by (cases f) (simp add: less_Suc_eq_le)

lemma size_items: "items f = Some it \<Longrightarrow> field_size it < field_size f"
  by (cases f) (simp add: less_Suc_eq_le)

text \<open>
  \<open>validate\<close> and \<open>validateField\<close> call each other; \<open>field_pass\<close> is pass 2 of \<open>validate\<close>
  (the loop over the keys of the data) and \<open>validate_items\<close> the \<open>forEach\<close> over the
  elements of an array.
\<close>

function
  validate :: "config \<Rightarrow> SchemaDefinition \<Rightarrow> jsval \<Rightarrow> exn + ValidationResult"
and
  field_pass :: "config \<Rightarrow> SchemaDefinition \<Rightarrow> jsval \<Rightarrow> string list \<Rightarrow>
     ValidationError list \<Rightarrow> obj \<Rightarrow> (ValidationError list \<times> obj) control"
and
  validateField :: "config \<Rightarrow> string \<Rightarrow> jsval \<Rightarrow> SchemaField \<Rightarrow> exn + ValidationError list"
and
  validate_items :: "config \<Rightarrow> string \<Rightarrow> SchemaField \<Rightarrow> jsval list \<Rightarrow> nat \<Rightarrow>
     ValidationError list \<Rightarrow> exn + ValidationError list"
where
  "validate cfg schema d =
     (case required_pass cfg schema d [] of
        Throw e \<Rightarrow> Inl e
      | Return r \<Rightarrow> Inr r
      | Continue errs \<Rightarrow>
          (case field_pass cfg schema d (for_in_keys d) errs [] of
             Throw e \<Rightarrow> Inl e
           | Return r \<Rightarrow> Inr r
           | Continue (errs', result) \<Rightarrow>
               Inr \<lparr>valid = (length errs' = 0),
                    errors = errs',
                    data = (if length errs' = 0 then VObj (default_pass schema result) else VNull)\<rparr>))"
| "field_pass cfg schema d [] errs result = Continue (errs, result)"
| "field_pass cfg schema d (fieldName # keys) errs result =
     (case get_prop d fieldName of
        Inl e \<Rightarrow> Throw e
      | Inr v \<Rightarrow>
          (case schema_lookup schema fieldName of
             None \<Rightarrow>
               if strictMode cfg then
                 if errorCollectionMode cfg = First \<and> length (errs @ [unknown_error fieldName v]) > 0
                 then Return (failed (errs @ [unknown_error fieldName v]))
                 else field_pass cfg schema d keys (errs @ [unknown_error fieldName v]) result
               else field_pass cfg schema d keys errs (obj_set result fieldName v)
           | Some fld \<Rightarrow>
               (case validateField cfg fieldName v fld of
                  Inl e \<Rightarrow> Throw e
                | Inr fieldErrors \<Rightarrow>
                    if length fieldErrors > 0 then
                      if errorCollectionMode cfg = First \<and> length (errs @ fieldErrors) > 0
                      then Return (failed (errs @ fieldErrors))
                      else field_pass cfg schema d keys (errs @ fieldErrors) result
                    else field_pass cfg schema d keys errs
                           (obj_set result fieldName (stored_value cfg fld v)))))"
| "validateField cfg fieldName v fieldSchema =
     (if v = VNull then
        (if nullable fieldSchema then Inr [] else Inr [null_error fieldName])
      else if v = VUndefined \<and> \<not> required fieldSchema then Inr []
      else if \<not> validateType v fieldSchema then Inr [type_error fieldName (ftype fieldSchema) v]
      else
        (case
           (case fields fieldSchema of
              Some sub \<Rightarrow>
                if ftype fieldSchema = TObject \<and> js_typeof v = ''object'' then
                  (case validate cfg sub v of
                     Inl e \<Rightarrow> Inl e
                   | Inr nestedResult \<Rightarrow>
                       Inr (if \<not> valid nestedResult
                            then map (prefix_error fieldName) (errors nestedResult)
                            else []))
                else Inr []
            | None \<Rightarrow> Inr [])
         of
           Inl e \<Rightarrow> Inl e
         | Inr errs1 \<Rightarrow>
             (case
                (case items fieldSchema of
                   Some itemSchema \<Rightarrow>
                     (case v of
                        VArr xs \<Rightarrow>
                          if ftype fieldSchema = TArray
                          then validate_items cfg fieldName itemSchema xs 0 errs1
                          else Inr errs1
                      | _ \<Rightarrow> Inr errs1)
                 | None \<Rightarrow> Inr errs1)
              of
                Inl e \<Rightarrow> Inl e
              | Inr errs2 \<Rightarrow>
                  Inr (if length (rules fieldSchema) > 0
                       then rule_chain cfg fieldName v (rules fieldSchema) errs2
                       else errs2))))"
| "validate_items cfg fieldName itemSchema [] index errs = Inr errs"
| "validate_items cfg fieldName itemSchema (item # rest) index errs =
     (case fields itemSchema of
        Some sub \<Rightarrow>
          if ftype itemSchema = TObject then
            (case validate cfg sub item of
               Inl e \<Rightarrow> Inl e
             | Inr itemResult \<Rightarrow>
                 validate_items cfg fieldName itemSchema rest (Suc index)
                   (if \<not> valid itemResult
                    then errs @ map (prefix_error (item_name fieldName index)) (errors itemResult)
                    else errs))
          else
            (case validateField cfg (item_name fieldName index) item itemSchema of
               Inl e \<Rightarrow> Inl e
             | Inr itemErrors \<Rightarrow>
                 validate_items cfg fieldName itemSchema rest (Suc index) (errs @ itemErrors))
      | None \<Rightarrow>
          (case validateField cfg (item_name fieldName index) item itemSchema of
             Inl e \<Rightarrow> Inl e
           | Inr itemErrors \<Rightarrow>
               validate_items cfg fieldName itemSchema rest (Suc index) (errs @ itemErrors)))"
  by pat_completeness auto

termination
  by (relation "inv_image (less_than <*lex*> less_than <*lex*> less_than)
     (\<lambda>x. case x of
        Inl (Inl (cfg, schema, d)) \<Rightarrow> (schema_size schema, 1::nat, 0::nat)
      | Inl (Inr (cfg, schema, d, keys, errs, result)) \<Rightarrow> (schema_size schema, 0, length keys)
      | Inr (Inl (cfg, fieldName, v, fieldSchema)) \<Rightarrow> (field_size fieldSchema, 0, 0)
      | Inr (Inr (cfg, fieldName, itemSchema, xs, index, errs)) \<Rightarrow>
          (field_size itemSchema, 1, length xs))")
    (auto simp: size_lookup_field size_fields size_items)

declare validate.simps [simp del] validateField.simps [simp del]

section \<open>Rules (rules.ts)\<close>

definition hex_digit :: "nat \<Rightarrow> char" where
  "hex_digit d = ''0123456789abcdef'' ! d"

text \<open>
  \<open>JSON.stringify\<close> on the values of the model; \<open>None\<close> is its result \<open>undefined\<close>, for
  \<open>undefined\<close> and for a function. In an array such an element is written \<open>null\<close>, in an
  object such a property is left out.
\<close>

definition json_escape :: "char \<Rightarrow> string" where
  "json_escape c =
     (if c = CHR 0x22 then [CHR 0x5C, CHR 0x22]
      else if c = CHR 0x5C then [CHR 0x5C, CHR 0x5C]
      else if c = CHR 0x08 then [CHR 0x5C, CHR ''b'']
      else if c = CHR 0x09 then [CHR 0x5C, CHR ''t'']
      else if c = CHR 0x0A then [CHR 0x5C, CHR ''n'']
      else if c = CHR 0x0C then [CHR 0x5C, CHR ''f'']
      else if c = CHR 0x0D then [CHR 0x5C, CHR ''r'']
      else if (of_char c :: nat) < 32
        then [CHR 0x5C, CHR ''u'', CHR ''0'', CHR ''0'',
              hex_digit (of_char c div 16), hex_digit (of_char c mod 16)]
      else [c])"

definition json_quote :: "string \<Rightarrow> string" where
  "json_quote s = [CHR 0x22] @ concat (map json_escape s) @ [CHR 0x22]"

fun join :: "string \<Rightarrow> string list \<Rightarrow> string" where
  "join sep [] = []"
| "join sep [x] = x"
| "join sep (x # y # ys) = x @ sep @ join sep (y # ys)"

fun json_stringify :: "jsval \<Rightarrow> string option"
  and json_elements :: "jsval list \<Rightarrow> string list"
  and json_members :: "(string \<times> jsval) list \<Rightarrow> string list"
where
  "json_stringify VUndefined = None"
| "json_stringify VNull = Some ''null''"
| "json_stringify (VBool b) = Some (if b then ''true'' else ''false'')"
| "json_stringify (VNum n) = Some (show_int n)"
| "json_stringify VNaN = Some ''null''"
| "json_stringify (VStr s) = Some (json_quote s)"
| "json_stringify (VArr xs) = Some (''['' @ join '','' (json_elements xs) @ '']'')"
| "json_stringify (VObj kvs) = Some (''{'' @ join '','' (json_members kvs) @ ''}'')"
| "json_stringify (VFunction f) = None"
| "json_elements [] = []"
| "json_elements (x # xs) =
     (case json_stringify x of None \<Rightarrow> ''null'' | Some t \<Rightarrow> t) # json_elements xs"
| "json_members [] = []"
| "json_members ((k, v) # kvs) =
     (case json_stringify v of
        None \<Rightarrow> json_members kvs
      | Some t \<Rightarrow> (json_quote k @ '':'' @ t) # json_members kvs)"

text \<open>
  \<open>rules.string.min(length)\<close> and \<open>rules.array.unique()\<close>, the latter called without a
  key function: the items are compared by their JSON text, and a \<open>Set\<close> of the texts has
  as many members as there are items exactly when no text repeats.
\<close>

definition rules_string_min :: "int \<Rightarrow> ValidationRule" where
  "rules_string_min len =
     \<lparr>rule_validate = (\<lambda>v. case v of VStr s \<Rightarrow> int (length s) \<ge> len | _ \<Rightarrow> False),
      rule_message = MessageFunction
        (\<lambda>v fld. fld @ '' must be at least '' @ show_int len @ '' characters long'')\<rparr>"

definition rules_array_unique :: ValidationRule where
  "rules_array_unique =
     \<lparr>rule_validate = (\<lambda>v. case v of
          VArr xs \<Rightarrow> length (remdups (map json_stringify xs)) = length (map json_stringify xs)
        | _ \<Rightarrow> False),
      rule_message = MessageFunction (\<lambda>v fld. fld @ '' must contain unique items'')\<rparr>"

section \<open>Vocabulary of the properties\<close>

text \<open>A result that reports a failure: not valid, some error, and no data.\<close>

definition is_failed :: "ValidationResult \<Rightarrow> bool" where
  "is_failed r = (\<not> valid r \<and> errors r \<noteq> [] \<and> data r = VNull)"

text \<open>The test of the required-field pass on the value read from the data.\<close>

definition missing :: "SchemaField \<Rightarrow> jsval \<Rightarrow> bool" where
  "missing fld v = (v = VUndefined \<or> (v = VNull \<and> \<not> nullable fld))"

text \<open>The object literal \<open>{type: t}\<close>, and the same with \<open>required: true\<close>.\<close>

definition plain :: "field_type \<Rightarrow> SchemaField" where
  "plain t = SchemaField t False False [] None (DefaultValue VUndefined) None None"

definition plain_required :: "field_type \<Rightarrow> SchemaField" where
  "plain_required t = SchemaField t True False [] None (DefaultValue VUndefined) None None"

definition first_config :: config where
  "first_config = default_config\<lparr>errorCollectionMode := First\<rparr>"

text \<open>Scenario E: \<open>{a: {type: "string", required: true}, b: {type: "number", required: true}}\<close>.\<close>

definition scenario_E_schema :: SchemaDefinition where
  "scenario_E_schema = [(''a'', plain_required TString), (''b'', plain_required TNumber)]"

text \<open>
  The three sources of errors of \<open>validateField\<close> once the value has passed the early
  exits, each from an empty list: the nested object, the elements of the array (one
  element: \<open>item_errors\<close>), and the rule chain (\<open>rule_chain\<close> itself).
\<close>

definition nested_object_errors ::
  "config \<Rightarrow> string \<Rightarrow> jsval \<Rightarrow> SchemaField \<Rightarrow> exn + ValidationError list" where
  "nested_object_errors cfg fieldName v fld =
     (case fields fld of
        Some sub \<Rightarrow>
          if ftype fld = TObject \<and> js_typeof v = ''object'' then
            (case validate cfg sub v of
               Inl e \<Rightarrow> Inl e
             | Inr nestedResult \<Rightarrow> Inr (map (prefix_error fieldName) (errors nestedResult)))
          else Inr []
      | None \<Rightarrow> Inr [])"

definition item_errors ::
  "config \<Rightarrow> string \<Rightarrow> SchemaField \<Rightarrow> nat \<Rightarrow> jsval \<Rightarrow> exn + ValidationError list" where
  "item_errors cfg fieldName itemSchema index item =
     (case fields itemSchema of
        Some sub \<Rightarrow>
          if ftype itemSchema = TObject then
            (case validate cfg sub item of
               Inl e \<Rightarrow> Inl e
             | Inr itemResult \<Rightarrow>
                 Inr (map (prefix_error (item_name fieldName index)) (errors itemResult)))
          else validateField cfg (item_name fieldName index) item itemSchema
      | None \<Rightarrow> validateField cfg (item_name fieldName index) item itemSchema)"

definition array_errors ::
  "config \<Rightarrow> string \<Rightarrow> jsval \<Rightarrow> SchemaField \<Rightarrow> exn + ValidationError list" where
  "array_errors cfg fieldName v fld =
     (case items fld of
        Some itemSchema \<Rightarrow>
          (case v of
             VArr xs \<Rightarrow>
               if ftype fld = TArray then validate_items cfg fieldName itemSchema xs 0 []
               else Inr []
           | _ \<Rightarrow> Inr [])
      | None \<Rightarrow> Inr [])"

text \<open>
  What a run reports apart from the assembled object: the verdict and the errors of a
  result, and the errors of pass 2.
\<close>

definition errors_of :: "exn + ValidationResult \<Rightarrow> exn + bool \<times> ValidationError list" where
  "errors_of x = (case x of Inl e \<Rightarrow> Inl e | Inr r \<Rightarrow> Inr (valid r, errors r))"

definition control_errors :: "(ValidationError list \<times> obj) control \<Rightarrow> ValidationError list control" where
  "control_errors c = (case c of Throw e \<Rightarrow> Throw e | Return r \<Rightarrow> Return r | Continue (errs, result) \<Rightarrow> Continue errs)"

section \<open>Objects\<close>

lemma obj_get_set: "obj_get (obj_set r k v) k' = (if k' = k then v else obj_get r k')"
  by (induction r) (auto simp: obj_get_def)

lemma js_get_set: "js_get (obj_set r k v) k' = (if k' = k then v else js_get r k')"
  by (induction r) (auto simp: js_get_def)


lemma inherited_undefined: "k \<notin> set inherited_names \<Longrightarrow> inherited k = VUndefined"
  by (auto simp: inherited_def inherited_names_def)

lemma js_get_own: "k \<in> fst ` set kvs \<Longrightarrow> js_get kvs k = obj_get kvs k"
  using map_of_eq_None_iff[of kvs k] by (auto simp: js_get_def obj_get_def split: option.splits)

lemma js_get_absent: "k \<notin> fst ` set kvs \<Longrightarrow> js_get kvs k = inherited k"
  using map_of_eq_None_iff[of kvs k] by (simp add: js_get_def)

lemma js_get_map_of: "map_of kvs k = Some v \<Longrightarrow> js_get kvs k = v"
  by (simp add: js_get_def)

lemma obj_get_absent: "k \<notin> fst ` set kvs \<Longrightarrow> obj_get kvs k = VUndefined"
  using map_of_eq_None_iff[of kvs k] by (simp add: obj_get_def)

lemma schema_lookup_own: "map_of schema k = Some f \<Longrightarrow> schema_lookup schema k = Some f"
  by (simp add: schema_lookup_def)

lemma schema_lookup_None:
  "schema_lookup schema k = None \<longleftrightarrow> map_of schema k = None \<and> k \<notin> set inherited_names"
  by (simp add: schema_lookup_def split: option.splits)

lemma map_fst_obj_set:
  "map fst (obj_set r k v) = (if k \<in> fst ` set r then map fst r else map fst r @ [k])"
  by (induction r) (auto split: if_splits)

lemma keys_obj_set: "fst ` set (obj_set r k v) = insert k (fst ` set r)"
  using arg_cong[OF map_fst_obj_set[of r k v], of set] by auto

section \<open>The three passes of validate\<close>

subsection \<open>An early return reports a failure\<close>

lemma required_pass_Return:
  "required_pass cfg schema d errs = Return r \<Longrightarrow> is_failed r"
  by (induction schema arbitrary: errs)
     (auto simp: is_failed_def failed_def split: if_splits sum.splits)

lemma field_pass_Return:
  "field_pass cfg schema d keys errs result = Return r \<Longrightarrow> is_failed r"
  by (induction keys arbitrary: errs result)
     (auto simp: is_failed_def failed_def split: if_splits sum.splits option.splits)

subsection \<open>Errors are only ever added\<close>

lemma required_pass_Continue_prefix:
  "required_pass cfg schema d errs = Continue errs' \<Longrightarrow> \<exists>new. errs' = errs @ new"
proof (induction schema arbitrary: errs)
  case Nil
  then show ?case by simp
next
  case (Cons p schema)
  obtain n f where p: "p = (n, f)" by (cases p)
  from Cons.prems p consider
      "required_pass cfg schema d errs = Continue errs'"
    | "required_pass cfg schema d (errs @ [required_error n]) = Continue errs'"
    by (auto split: if_splits sum.splits)
  then show ?case
  proof cases
    case 1
    then show ?thesis by (rule Cons.IH)
  next
    case 2
    from Cons.IH[OF this] show ?thesis by auto
  qed
qed

lemma field_pass_Continue_prefix:
  "field_pass cfg schema d keys errs result = Continue (errs', result') \<Longrightarrow>
   \<exists>new. errs' = errs @ new"
proof (induction keys arbitrary: errs result)
  case Nil
  then show ?case by simp
next
  case (Cons k keys)
  from Cons.prems obtain es r
    where "field_pass cfg schema d keys (errs @ es) r = Continue (errs', result')"
    by (auto split: if_splits sum.splits option.splits) (metis append_Nil2)+
  from Cons.IH[OF this] show ?case by auto
qed

subsection \<open>Pass 1 on an object\<close>

lemma required_pass_none:
  "\<forall>(n, f) \<in> set schema. required f \<longrightarrow> \<not> missing f (js_get kvs n) \<Longrightarrow>
   required_pass cfg schema (VObj kvs) errs = Continue errs"
  by (induction schema arbitrary: errs) (auto simp: missing_def)

lemma required_pass_Continue_same:
  "required_pass cfg schema (VObj kvs) errs = Continue errs \<Longrightarrow>
   \<forall>(n, f) \<in> set schema. required f \<longrightarrow> \<not> missing f (js_get kvs n)"
proof (induction schema)
  case Nil
  then show ?case by simp
next
  case (Cons p schema)
  obtain n f where p: "p = (n, f)" by (cases p)
  show ?case
  proof (cases "required f \<and> missing f (js_get kvs n)")
    case True
    with Cons.prems p
    have "required_pass cfg schema (VObj kvs) (errs @ [required_error n]) = Continue errs"
      by (auto simp: missing_def split: if_splits)
    from required_pass_Continue_prefix[OF this] show ?thesis by simp
  next
    case False
    with Cons.prems p have "required_pass cfg schema (VObj kvs) errs = Continue errs"
      by (auto simp: missing_def split: if_splits)
    with Cons.IH False p show ?thesis by auto
  qed
qed

lemma required_pass_first:
  assumes "errorCollectionMode cfg = First"
    and "\<forall>(n, f) \<in> set pre. required f \<longrightarrow> \<not> missing f (js_get kvs n)"
    and "required fld" and "missing fld (js_get kvs name)"
  shows "required_pass cfg (pre @ (name, fld) # post) (VObj kvs) errs
         = Return (failed (errs @ [required_error name]))"
  using assms by (induction pre) (auto simp: missing_def)

lemma required_pass_null:
  assumes "\<exists>(n, f) \<in> set schema. required f" and "d = VNull \<or> d = VUndefined"
  shows "required_pass cfg schema d errs = Throw TypeError"
  using assms
proof (induction schema)
  case Nil
  then show ?case by simp
next
  case (Cons a schema)
  obtain n f where a: "a = (n, f)" by (cases a)
  from Cons.prems(2) have g: "get_prop d n = Inl TypeError" by auto
  show ?case
  proof (cases "required f")
    case True
    with a g show ?thesis by simp
  next
    case False
    with Cons.prems(1) a have "\<exists>(n, f) \<in> set schema. required f" by auto
    from Cons.IH[OF this Cons.prems(2)] False a show ?thesis by simp
  qed
qed

lemma required_pass_all:
  "errorCollectionMode cfg = All \<Longrightarrow>
   required_pass cfg schema (VObj kvs) errs =
     Continue (errs @ map (\<lambda>(n, f). required_error n)
                 (filter (\<lambda>(n, f). required f \<and> missing f (js_get kvs n)) schema))"
proof (induction schema arbitrary: errs)
  case Nil
  then show ?case by simp
next
  case (Cons p schema)
  obtain n f where p: "p = (n, f)" by (cases p)
  show ?case unfolding p using Cons.prems
    by (simp add: Cons.IH[OF Cons.prems] missing_def)
qed

subsection \<open>Pass 3\<close>


lemma default_pass_other_js:
  "k \<notin> fst ` set schema \<Longrightarrow> js_get (default_pass schema result) k = js_get result k"
  by (induction schema arbitrary: result) (auto simp: js_get_set)

lemma default_pass_keys:
  "fst ` set (default_pass schema result) \<subseteq> fst ` set result \<union> fst ` set schema"
proof (induction schema arbitrary: result)
  case Nil
  then show ?case by simp
next
  case (Cons p schema)
  obtain n f where p: "p = (n, f)" by (cases p)
  show ?case
    using Cons.IH[of result] Cons.IH[of "obj_set result n (default_of (dflt f))"]
    unfolding p by (auto simp: keys_obj_set)
qed


lemma default_pass_key_set:
  "fst ` set (default_pass schema result) =
     fst ` set result \<union>
     {n. \<exists>f. (n, f) \<in> set schema \<and> js_get result n = VUndefined \<and> \<not> default_undefined (dflt f)}"
proof (induction schema arbitrary: result)
  case Nil
  then show ?case by simp
next
  case (Cons p schema)
  obtain n f where p: "p = (n, f)" by (cases p)
  show ?case
  proof (cases "js_get result n = VUndefined \<and> \<not> default_undefined (dflt f)")
    case True
    let ?res = "obj_set result n (default_of (dflt f))"
    have "fst ` set (default_pass (p # schema) result) = fst ` set (default_pass schema ?res)"
      using True p by simp
    also have "\<dots> = fst ` set ?res \<union>
       {m. \<exists>g. (m, g) \<in> set schema \<and> js_get ?res m = VUndefined \<and> \<not> default_undefined (dflt g)}"
      by (rule Cons.IH)
    also have "\<dots> = fst ` set result \<union>
       {m. \<exists>g. (m, g) \<in> set (p # schema) \<and> js_get result m = VUndefined \<and> \<not> default_undefined (dflt g)}"
      using True p by (auto simp: keys_obj_set js_get_set split: if_splits)
    finally show ?thesis .
  next
    case False
    have "fst ` set (default_pass (p # schema) result) = fst ` set (default_pass schema result)"
      using False p by auto
    also have "\<dots> = fst ` set result \<union>
       {m. \<exists>g. (m, g) \<in> set schema \<and> js_get result m = VUndefined \<and> \<not> default_undefined (dflt g)}"
      by (rule Cons.IH)
    also have "\<dots> = fst ` set result \<union>
       {m. \<exists>g. (m, g) \<in> set (p # schema) \<and> js_get result m = VUndefined \<and> \<not> default_undefined (dflt g)}"
      using False p by auto
    finally show ?thesis .
  qed
qed



subsection \<open>Pass 2 on an object\<close>

text \<open>
  Pass 2 on an object, key by key: the value stored for a key, whether a key passes without
  an error, and the object assembled from keys that all pass.
\<close>

definition out_value :: "config \<Rightarrow> SchemaDefinition \<Rightarrow> string \<Rightarrow> jsval \<Rightarrow> jsval" where
  "out_value cfg schema k v =
     (case schema_lookup schema k of None \<Rightarrow> v | Some f \<Rightarrow> stored_value cfg f v)"

definition key_ok :: "config \<Rightarrow> SchemaDefinition \<Rightarrow> string \<Rightarrow> jsval \<Rightarrow> bool" where
  "key_ok cfg schema k v =
     (case schema_lookup schema k of
        None \<Rightarrow> \<not> strictMode cfg
      | Some f \<Rightarrow> validateField cfg k v f = Inr [])"

fun assemble :: "config \<Rightarrow> SchemaDefinition \<Rightarrow> obj \<Rightarrow> string list \<Rightarrow> obj \<Rightarrow> obj" where
  "assemble cfg schema kvs [] result = result"
| "assemble cfg schema kvs (k # keys) result =
     assemble cfg schema kvs keys (obj_set result k (out_value cfg schema k (js_get kvs k)))"

lemma assemble_get:
  "obj_get (assemble cfg schema kvs keys result) k =
     (if k \<in> set keys then out_value cfg schema k (js_get kvs k) else obj_get result k)"
  by (induction keys arbitrary: result) (auto simp: obj_get_set)

lemma assemble_keys:
  "fst ` set (assemble cfg schema kvs keys result) = fst ` set result \<union> set keys"
  by (induction keys arbitrary: result) (auto simp: keys_obj_set)

lemma field_pass_ok:
  "\<forall>k \<in> set keys. key_ok cfg schema k (js_get kvs k) \<Longrightarrow>
   field_pass cfg schema (VObj kvs) keys errs result
     = Continue (errs, assemble cfg schema kvs keys result)"
  by (induction keys arbitrary: result)
     (auto simp: key_ok_def out_value_def split: option.splits)

lemma field_pass_step_cases:
  assumes "field_pass cfg schema (VObj kvs) (k # keys) errs result = Continue (errs', result')"
  obtains
    (ok) "key_ok cfg schema k (js_get kvs k)"
      "field_pass cfg schema (VObj kvs) keys errs
         (obj_set result k (out_value cfg schema k (js_get kvs k))) = Continue (errs', result')"
  | (bad) es where "es \<noteq> []" "\<not> key_ok cfg schema k (js_get kvs k)"
      "field_pass cfg schema (VObj kvs) keys (errs @ es) result = Continue (errs', result')"
  using assms
  by (auto simp: key_ok_def out_value_def split: option.splits if_splits sum.splits)

lemma field_pass_Continue_same:
  "field_pass cfg schema (VObj kvs) keys errs result = Continue (errs, result') \<Longrightarrow>
   \<forall>k \<in> set keys. key_ok cfg schema k (js_get kvs k)"
proof (induction keys arbitrary: result)
  case Nil
  then show ?case by simp
next
  case (Cons k keys)
  from Cons.prems show ?case
  proof (cases rule: field_pass_step_cases)
    case ok
    from Cons.IH[OF ok(2)] ok(1) show ?thesis by simp
  next
    case (bad es)
    from field_pass_Continue_prefix[OF bad(3)] bad(1) show ?thesis by simp
  qed
qed

lemma field_pass_all_no_Return:
  "errorCollectionMode cfg = All \<Longrightarrow> field_pass cfg schema d keys errs result \<noteq> Return r"
  by (induction keys arbitrary: errs result) (auto split: sum.splits option.splits)

text \<open>What one key of the data adds to the errors in pass 2.\<close>

definition key_errors :: "config \<Rightarrow> SchemaDefinition \<Rightarrow> string \<Rightarrow> jsval \<Rightarrow> exn + ValidationError list" where
  "key_errors cfg schema k v =
     (case schema_lookup schema k of
        None \<Rightarrow> Inr (if strictMode cfg then [unknown_error k v] else [])
      | Some f \<Rightarrow> validateField cfg k v f)"

lemma field_pass_all_contains:
  assumes "errorCollectionMode cfg = All"
  shows "field_pass cfg schema (VObj kvs) keys errs result = Continue (errs', result') \<Longrightarrow>
   k \<in> set keys \<Longrightarrow> key_errors cfg schema k (js_get kvs k) = Inr es \<Longrightarrow>
   \<exists>a b. errs' = errs @ a @ es @ b"
proof (induction keys arbitrary: errs result)
  case Nil
  then show ?case by simp
next
  case (Cons k' keys)
  from Cons.prems(1) obtain es' r' where
    step: "field_pass cfg schema (VObj kvs) keys (errs @ es') r' = Continue (errs', result')"
    and es': "key_errors cfg schema k' (js_get kvs k') = Inr es'"
    using assms
    by (auto simp: key_errors_def split: option.splits if_splits sum.splits)
  show ?case
  proof (cases "k = k'")
    case True
    from field_pass_Continue_prefix[OF step] obtain new where "errs' = (errs @ es') @ new" by blast
    moreover from True es' Cons.prems(3) have "es' = es" by simp
    ultimately have "errs' = errs @ [] @ es @ new" by simp
    then show ?thesis by blast
  next
    case False
    with Cons.prems(2) have "k \<in> set keys" by simp
    from Cons.IH[OF step this Cons.prems(3)] obtain a b where "errs' = (errs @ es') @ a @ es @ b"
      by blast
    then have "errs' = errs @ (es' @ a) @ es @ b" by simp
    then show ?thesis by blast
  qed
qed

lemma validate_valid_obj:
  assumes "validate cfg schema (VObj kvs) = Inr r" and "valid r"
  shows "\<forall>(n, f) \<in> set schema. required f \<longrightarrow> \<not> missing f (js_get kvs n)"
    and "\<forall>k \<in> fst ` set kvs. key_ok cfg schema k (js_get kvs k)"
    and "field_pass cfg schema (VObj kvs) (map fst kvs) [] []
           = Continue ([], assemble cfg schema kvs (map fst kvs) [])"
    and "r = \<lparr>valid = True, errors = [],
              data = VObj (default_pass schema (assemble cfg schema kvs (map fst kvs) []))\<rparr>"
proof -
  from assms obtain errs1 where p1: "required_pass cfg schema (VObj kvs) [] = Continue errs1"
    by (auto simp: validate.simps is_failed_def split: control.splits dest: required_pass_Return)
  with assms obtain errs2 res where
    p2: "field_pass cfg schema (VObj kvs) (map fst kvs) errs1 [] = Continue (errs2, res)"
    by (auto simp: validate.simps is_failed_def split: control.splits dest: field_pass_Return)
  from assms p1 p2 have e2: "errs2 = []" and r: "r = \<lparr>valid = True, errors = [],
              data = VObj (default_pass schema res)\<rparr>"
    by (auto simp: validate.simps split: if_splits)
  from field_pass_Continue_prefix[OF p2] e2 have e1: "errs1 = []" by simp
  from required_pass_Continue_same[of cfg schema kvs "[]"] p1 e1
  show "\<forall>(n, f) \<in> set schema. required f \<longrightarrow> \<not> missing f (js_get kvs n)" by simp
  from field_pass_Continue_same[of cfg schema kvs "map fst kvs" "[]" "[]" res] p2 e1 e2
  show ok: "\<forall>k \<in> fst ` set kvs. key_ok cfg schema k (js_get kvs k)" by simp
  from field_pass_ok[of "map fst kvs" cfg schema kvs "[]" "[]"] ok
  show p2': "field_pass cfg schema (VObj kvs) (map fst kvs) [] []
           = Continue ([], assemble cfg schema kvs (map fst kvs) [])" by simp
  with p2 e1 e2 have "res = assemble cfg schema kvs (map fst kvs) []" by simp
  with r show "r = \<lparr>valid = True, errors = [],
              data = VObj (default_pass schema (assemble cfg schema kvs (map fst kvs) []))\<rparr>"
    by simp
qed

lemma validate_obj_ok:
  assumes "\<forall>(n, f) \<in> set schema. required f \<longrightarrow> \<not> missing f (js_get kvs n)"
    and "\<forall>k \<in> fst ` set kvs. key_ok cfg schema k (js_get kvs k)"
  shows "validate cfg schema (VObj kvs) = Inr \<lparr>valid = True, errors = [],
              data = VObj (default_pass schema (assemble cfg schema kvs (map fst kvs) []))\<rparr>"
  using required_pass_none[OF assms(1), of cfg "[]"]
    field_pass_ok[of "map fst kvs" cfg schema kvs "[]" "[]"] assms(2)
  by (simp add: validate.simps)


lemma obj_get_Nil: "obj_get [] k = VUndefined"
  by (simp add: obj_get_def)

lemma map_of_key: "map_of kvs k = Some v \<Longrightarrow> k \<in> fst ` set kvs"
  by (metis domI dom_map_of_conv_image_fst)

subsection \<open>validate on an object\<close>


lemma validate_all_obj:
  assumes "errorCollectionMode cfg = All" and "validate cfg schema (VObj kvs) = Inr r"
  obtains errs1 res where
    "errs1 = map (\<lambda>(n, f). required_error n)
               (filter (\<lambda>(n, f). required f \<and> missing f (js_get kvs n)) schema)"
    "field_pass cfg schema (VObj kvs) (map fst kvs) errs1 [] = Continue (errors r, res)"
proof -
  let ?errs1 = "map (\<lambda>(n, f). required_error n)
               (filter (\<lambda>(n, f). required f \<and> missing f (js_get kvs n)) schema)"
  have p1: "required_pass cfg schema (VObj kvs) [] = Continue ?errs1"
    using required_pass_all[OF assms(1), of schema kvs "[]"] by simp
  with assms(2) obtain errs2 res where
    "field_pass cfg schema (VObj kvs) (map fst kvs) ?errs1 [] = Continue (errs2, res)"
    and "errors r = errs2"
    using field_pass_all_no_Return[OF assms(1)]
    by (auto simp: validate.simps split: control.splits)
  then show thesis using that by simp
qed

lemma validateField_null:
  "validateField cfg name VNull fld = Inr (if nullable fld then [] else [null_error name])"
  by (simp add: validateField.simps)

lemma validateField_inherited:
  "validateField cfg k v inherited_field =
     Inr (if v = VNull then [null_error k] else if v = VUndefined then []
          else [type_error k TUndefined v])"
  by (simp add: validateField.simps inherited_field_def)

lemma schema_lookup_inherited:
  "map_of schema k = None \<Longrightarrow> k \<in> set inherited_names \<Longrightarrow>
   schema_lookup schema k = Some inherited_field"
  by (simp add: schema_lookup_def)


subsection \<open>validateField\<close>

lemma validate_valid_errors: "validate cfg schema d = Inr r \<Longrightarrow> valid r \<Longrightarrow> errors r = []"
  by (auto simp: validate.simps is_failed_def split: control.splits prod.splits if_splits
      dest: required_pass_Return field_pass_Return)

lemma rule_chain_append:
  "rule_chain cfg fieldName v rs errs = errs @ rule_chain cfg fieldName v rs []"
proof (induction rs arbitrary: errs)
  case Nil
  then show ?case by simp
next
  case (Cons r rs)
  show ?case
    using Cons.IH[of errs] Cons.IH[of "errs @ [rule_error r fieldName v]"]
      Cons.IH[of "[rule_error r fieldName v]"]
    by simp
qed

lemma validate_items_Cons:
  "validate_items cfg fieldName itemSchema (item # rest) index errs =
     (case item_errors cfg fieldName itemSchema index item of
        Inl e \<Rightarrow> Inl e
      | Inr es \<Rightarrow> validate_items cfg fieldName itemSchema rest (Suc index) (errs @ es))"
  by (auto simp: item_errors_def validate_valid_errors split: option.splits sum.splits)

lemma validate_items_Inr:
  "validate_items cfg fieldName itemSchema xs index errs = Inr es \<Longrightarrow>
   \<exists>ess. length ess = length xs \<and>
     (\<forall>j < length xs. item_errors cfg fieldName itemSchema (index + j) (xs ! j) = Inr (ess ! j)) \<and>
     es = errs @ concat ess"
proof (induction xs arbitrary: index errs)
  case Nil
  then show ?case by simp
next
  case (Cons x xs)
  from Cons.prems obtain e1 where
    e1: "item_errors cfg fieldName itemSchema index x = Inr e1"
    and rest: "validate_items cfg fieldName itemSchema xs (Suc index) (errs @ e1) = Inr es"
    by (auto simp: validate_items_Cons simp del: validate_items.simps split: sum.splits)
  from Cons.IH[OF rest] obtain ess where
    ess: "length ess = length xs"
      "\<forall>j < length xs. item_errors cfg fieldName itemSchema (Suc index + j) (xs ! j) = Inr (ess ! j)"
      "es = (errs @ e1) @ concat ess"
    by blast
  have "\<forall>j < length (x # xs).
          item_errors cfg fieldName itemSchema (index + j) ((x # xs) ! j) = Inr ((e1 # ess) ! j)"
  proof (intro allI impI)
    fix j assume "j < length (x # xs)"
    then show "item_errors cfg fieldName itemSchema (index + j) ((x # xs) ! j) = Inr ((e1 # ess) ! j)"
      using e1 ess(2) by (cases j) auto
  qed
  moreover have "length (e1 # ess) = length (x # xs)" using ess(1) by simp
  moreover have "es = errs @ concat (e1 # ess)" using ess(3) by simp
  ultimately show ?case by blast
qed

lemma validate_items_acc:
  "validate_items cfg fieldName it xs index errs =
     (case validate_items cfg fieldName it xs index [] of
        Inl e \<Rightarrow> Inl e
      | Inr ea \<Rightarrow> Inr (errs @ ea))"
proof (induction xs arbitrary: index errs)
  case Nil
  then show ?case by simp
next
  case (Cons x xs)
  show ?case
  proof (cases "item_errors cfg fieldName it index x")
    case (Inl e)
    then show ?thesis by (simp add: validate_items_Cons del: validate_items.simps)
  next
    case (Inr e1)
    then show ?thesis
      using Cons.IH[of "Suc index" "errs @ e1"] Cons.IH[of "Suc index" e1]
      by (simp add: validate_items_Cons del: validate_items.simps split: sum.splits)
  qed
qed

lemma rule_part:
  "(if length rs > 0 then rule_chain cfg fieldName v rs errs else errs)
     = errs @ rule_chain cfg fieldName v rs []"
  using rule_chain_append[of cfg fieldName v rs errs] by (cases rs) auto

lemma validateField_parts:
  assumes "v \<noteq> VNull" and "\<not> (v = VUndefined \<and> \<not> required fld)" and "validateType v fld"
  shows "validateField cfg fieldName v fld =
     (case nested_object_errors cfg fieldName v fld of
        Inl e \<Rightarrow> Inl e
      | Inr eo \<Rightarrow>
          (case array_errors cfg fieldName v fld of
             Inl e \<Rightarrow> Inl e
           | Inr ea \<Rightarrow> Inr (eo @ ea @ rule_chain cfg fieldName v (rules fld) [])))"
proof -
  have nested: "(case fields fld of
              Some sub \<Rightarrow>
                if ftype fld = TObject \<and> js_typeof v = ''object'' then
                  (case validate cfg sub v of
                     Inl e \<Rightarrow> Inl e
                   | Inr nestedResult \<Rightarrow>
                       Inr (if \<not> valid nestedResult
                            then map (prefix_error fieldName) (errors nestedResult)
                            else []))
                else Inr []
            | None \<Rightarrow> Inr []) = nested_object_errors cfg fieldName v fld"
    by (auto simp: nested_object_errors_def validate_valid_errors split: option.splits sum.splits)
  have arr: "(case items fld of
                   Some itemSchema \<Rightarrow>
                     (case v of
                        VArr xs \<Rightarrow>
                          if ftype fld = TArray
                          then validate_items cfg fieldName itemSchema xs 0 errs1
                          else Inr errs1
                      | _ \<Rightarrow> Inr errs1)
                 | None \<Rightarrow> Inr errs1) =
      (case array_errors cfg fieldName v fld of Inl e \<Rightarrow> Inl e | Inr ea \<Rightarrow> Inr (errs1 @ ea))"
    for errs1
    using validate_items_acc[of cfg fieldName _ _ 0 errs1]
    by (auto simp: array_errors_def split: option.splits jsval.splits)
  show ?thesis
    using assms
    by (simp only: validateField.simps[of cfg fieldName v fld] nested arr rule_part if_False
        simp_thms split: sum.splits) (auto split: sum.splits)
qed

subsection \<open>The errors do not depend on transformEnabled\<close>

lemma required_pass_transform:
  "required_pass (cfg\<lparr>transformEnabled := b\<rparr>) schema d errs = required_pass cfg schema d errs"
  by (induction schema arbitrary: errs) (auto split: sum.splits)

lemma rule_chain_transform:
  "rule_chain (cfg\<lparr>transformEnabled := b\<rparr>) fieldName v rs errs = rule_chain cfg fieldName v rs errs"
  by (induction rs arbitrary: errs) auto

lemma transform_irrelevant:
  "errors_of (validate (cfg\<lparr>transformEnabled := b\<rparr>) schema d) = errors_of (validate cfg schema d)"
  "\<forall>result2. control_errors (field_pass (cfg\<lparr>transformEnabled := b\<rparr>) schema d keys errs result2)
      = control_errors (field_pass cfg schema d keys errs result)"
  "validateField (cfg\<lparr>transformEnabled := b\<rparr>) fieldName v fieldSchema
      = validateField cfg fieldName v fieldSchema"
  "validate_items (cfg\<lparr>transformEnabled := b\<rparr>) fieldName' itemSchema xs index errs'
      = validate_items cfg fieldName' itemSchema xs index errs'"
proof (induction cfg schema d and cfg schema d keys errs result and cfg fieldName v fieldSchema
    and cfg fieldName' itemSchema xs index errs'
    rule: validate_field_pass_validateField_validate_items.induct)
  case (1 cfg schema d)
  show ?case
  proof (cases "required_pass cfg schema d []")
    case (Continue errs1)
    from "1"[OF Continue] have "control_errors (field_pass (cfg\<lparr>transformEnabled := b\<rparr>) schema d (for_in_keys d) errs1 [])
      = control_errors (field_pass cfg schema d (for_in_keys d) errs1 [])" by blast
    then show ?thesis using Continue
      by (auto simp: validate.simps required_pass_transform errors_of_def control_errors_def
          split: control.splits)
  qed (simp_all add: validate.simps required_pass_transform errors_of_def)
next
  case (2 cfg schema d errs result)
  then show ?case by (simp add: control_errors_def)
next
  case (3 cfg schema d fieldName keys errs result)
  show ?case
  proof
    fix result2
    show "control_errors (field_pass (cfg\<lparr>transformEnabled := b\<rparr>) schema d (fieldName # keys) errs result2)
      = control_errors (field_pass cfg schema d (fieldName # keys) errs result)"
    proof (cases "get_prop d fieldName")
      case (Inl e)
      then show ?thesis by (simp add: control_errors_def)
    next
      case (Inr v)
      show ?thesis
      proof (cases "schema_lookup schema fieldName")
        case None
        then show ?thesis using Inr "3.IH"(1)[OF Inr None] "3.IH"(2)[OF Inr None]
          by (auto simp: control_errors_def)
      next
        case (Some fld)
        note vf = "3.IH"(3)[OF Inr Some]
        show ?thesis
        proof (cases "validateField cfg fieldName v fld")
          case (Inl e)
          then show ?thesis using Inr Some vf by (simp add: control_errors_def)
        next
          case fe: (Inr fieldErrors)
          then show ?thesis
            using Inr Some vf "3.IH"(4)[OF Inr Some fe] "3.IH"(5)[OF Inr Some fe]
            by (auto simp: control_errors_def)
        qed
      qed
    qed
  qed
next
  case (4 cfg fieldName v fieldSchema)
  let ?cfg' = "cfg\<lparr>transformEnabled := b\<rparr>"
  show ?case
  proof (cases "v = VNull \<or> (v = VUndefined \<and> \<not> required fieldSchema) \<or> \<not> validateType v fieldSchema")
    case True
    then show ?thesis by (auto simp: validateField.simps)
  next
    case False
    then have a1: "v \<noteq> VNull" and a2: "\<not> (v = VUndefined \<and> \<not> required fieldSchema)"
      and a3: "\<not> \<not> validateType v fieldSchema" by auto
    let ?N = "\<lambda>c. (case fields fieldSchema of
              Some sub \<Rightarrow>
                if ftype fieldSchema = TObject \<and> js_typeof v = ''object'' then
                  (case validate c sub v of
                     Inl e \<Rightarrow> Inl e
                   | Inr nestedResult \<Rightarrow>
                       Inr (if \<not> valid nestedResult
                            then map (prefix_error fieldName) (errors nestedResult)
                            else []))
                else Inr []
            | None \<Rightarrow> Inr [])"
    have N: "?N ?cfg' = ?N cfg"
    proof (cases "fields fieldSchema")
      case None
      then show ?thesis by simp
    next
      case (Some sub)
      show ?thesis
      proof (cases "ftype fieldSchema = TObject \<and> js_typeof v = ''object''")
        case True
        from "4.IH"(1)[OF a1 a2 a3 Some True] show ?thesis using Some True
          by (auto simp: errors_of_def split: sum.splits)
      next
        case False
        then show ?thesis using Some by auto
      qed
    qed
    let ?A = "\<lambda>c errs1. (case items fieldSchema of
                   Some itemSchema \<Rightarrow>
                     (case v of
                        VArr xs \<Rightarrow>
                          if ftype fieldSchema = TArray
                          then validate_items c fieldName itemSchema xs 0 errs1
                          else Inr errs1
                      | _ \<Rightarrow> Inr errs1)
                 | None \<Rightarrow> Inr errs1)"
    have A: "?A ?cfg' errs1 = ?A cfg errs1" if "?N cfg = Inr errs1" for errs1
      using "4.IH"(2)[OF a1 a2 a3 that] by (auto split: option.splits jsval.splits)
    have "validateField ?cfg' fieldName v fieldSchema =
        (case ?N ?cfg' of Inl e \<Rightarrow> Inl e
         | Inr errs1 \<Rightarrow> (case ?A ?cfg' errs1 of Inl e \<Rightarrow> Inl e
             | Inr errs2 \<Rightarrow> Inr (if length (rules fieldSchema) > 0
                       then rule_chain ?cfg' fieldName v (rules fieldSchema) errs2
                       else errs2)))"
      by (subst validateField.simps) (use a1 a2 a3 in auto)
    moreover have "validateField cfg fieldName v fieldSchema =
        (case ?N cfg of Inl e \<Rightarrow> Inl e
         | Inr errs1 \<Rightarrow> (case ?A cfg errs1 of Inl e \<Rightarrow> Inl e
             | Inr errs2 \<Rightarrow> Inr (if length (rules fieldSchema) > 0
                       then rule_chain cfg fieldName v (rules fieldSchema) errs2
                       else errs2)))"
      by (subst validateField.simps) (use a1 a2 a3 in auto)
    ultimately show ?thesis
      using N A by (simp add: rule_chain_transform split: sum.splits)
  qed
next
  case (5 cfg fieldName itemSchema index errs)
  then show ?case by simp
next
  case (6 cfg fieldName itemSchema item rest index errs)
  let ?cfg' = "cfg\<lparr>transformEnabled := b\<rparr>"
  show ?case
  proof (cases "fields itemSchema")
    case None
    from "6.IH"(1)[OF None] "6.IH"(2)[OF None] None show ?thesis
      by (auto split: sum.splits)
  next
    case (Some sub)
    show ?thesis
    proof (cases "ftype itemSchema = TObject")
      case True
      note eq = "6.IH"(3)[OF Some True]
      show ?thesis
      proof (cases "validate cfg sub item")
        case (Inl e)
        with eq have "validate ?cfg' sub item = Inl e"
          by (auto simp: errors_of_def split: sum.splits)
        with Inl Some True show ?thesis by simp
      next
        case (Inr r)
        with eq obtain r' where r': "validate ?cfg' sub item = Inr r'"
          "valid r' = valid r" "errors r' = errors r"
          by (auto simp: errors_of_def split: sum.splits)
        from "6.IH"(4)[OF Some True Inr] r' Inr Some True show ?thesis
          by (auto split: if_splits)
      qed
    next
      case False
      from "6.IH"(5)[OF Some False] "6.IH"(6)[OF Some False] Some False show ?thesis
        by (auto split: sum.splits)
    qed
  qed
qed

lemma validateField_transform:
  "validateField (cfg\<lparr>transformEnabled := b\<rparr>) fieldName v fld = validateField cfg fieldName v fld"
  by (rule transform_irrelevant(3))

section \<open>Inputs of the scenarios\<close>

definition scenario_B_schema :: SchemaDefinition where
  "scenario_B_schema =
     [(''user'', SchemaField TObject True False [] None (DefaultValue VUndefined)
         (Some [(''profile'', SchemaField TObject True False [] None (DefaultValue VUndefined)
            (Some [(''firstName'', plain_required TString)]) None)]) None)]"

definition scenario_C_tags :: SchemaField where
  "scenario_C_tags =
     SchemaField TArray False False [rules_array_unique] None (DefaultValue VUndefined) None
       (Some (SchemaField TString False False [rules_string_min 2] None (DefaultValue VUndefined)
          None None))"

definition scenario_C_schema :: SchemaDefinition where
  "scenario_C_schema = [(''tags'', scenario_C_tags)]"

definition scenario_B_profile :: SchemaDefinition where
  "scenario_B_profile =
     [(''profile'', SchemaField TObject True False [] None (DefaultValue VUndefined)
        (Some [(''firstName'', plain_required TString)]) None)]"

definition strict_config :: config where
  "strict_config = default_config\<lparr>strictMode := True\<rparr>"

definition strict_first_config :: config where
  "strict_first_config = default_config\<lparr>strictMode := True, errorCollectionMode := First\<rparr>"




text \<open>
  A schema with a transform and a default whose results satisfy the schema: the
  transform appends an exclamation mark to a name of at least two characters.
\<close>

definition idempotence_schema :: SchemaDefinition where
  "idempotence_schema =
     [(''name'', SchemaField TString True False [rules_string_min 2]
                  (Some (\<lambda>v. case v of VStr s \<Rightarrow> VStr (s @ ''!'') | _ \<Rightarrow> v))
                  (DefaultValue VUndefined) None None),
      (''age'', SchemaField TNumber False False [] None (DefaultValue (VNum 18)) None None)]"

section \<open>The properties\<close>

lemmas eval_defs =
  validate.simps validateField.simps default_config_def first_config_def plain_def
  plain_required_def obj_get_def js_get_def inherited_def object_prototype_methods_def
  inherited_names_def schema_lookup_def inherited_field_def failed_def required_error_def
  unknown_error_def null_error_def type_error_def apos_def stored_value_def strict_config_def
  strict_first_config_def show_nat.simps show_int_def digit_char_def json_quote_def
  json_escape_def rules_string_min_def rules_array_unique_def rule_error_def prefix_error_def
  item_name_def

lemma scenario_E_both_present:
  "validate first_config scenario_E_schema (VObj [(''a'', VStr ''x''), (''b'', VNum 1)])
   = Inr \<lparr>valid = True, errors = [], data = VObj [(''a'', VStr ''x''), (''b'', VNum 1)]\<rparr>"
  by (simp add: scenario_E_schema_def eval_defs)

text \<open>
  C1. Whatever the schema, the configuration and the data, a result that \<open>validate\<close>
  returns is valid exactly when its error list is empty, and valid exactly when its data
  is not the \<open>null\<close> marker; with errors the data is \<open>null\<close>, never the object under
  construction. (On data \<open>null\<close> or \<open>undefined\<close> with a required field, and on an array
  of objects holding such an element, \<open>validate\<close> throws and returns no result.)
\<close>

theorem validate_result_invariant:
  assumes "validate cfg schema d = Inr r"
  shows "(valid r \<longleftrightarrow> errors r = []) \<and> (valid r \<longleftrightarrow> data r \<noteq> VNull) \<and>
         (errors r \<noteq> [] \<longrightarrow> data r = VNull)"
  using assms
  by (auto simp: validate.simps is_failed_def split: control.splits prod.splits if_splits
      dest: required_pass_Return field_pass_Return)

theorem validate_result_invariant_witness:
  "validate first_config scenario_E_schema (VObj [(''a'', VStr ''x''), (''b'', VNum 1)])
     = Inr \<lparr>valid = True, errors = [], data = VObj [(''a'', VStr ''x''), (''b'', VNum 1)]\<rparr>
   \<and> data \<lparr>valid = True, errors = [], data = VObj [(''a'', VStr ''x''), (''b'', VNum 1)]\<rparr>
       \<noteq> VNull"
  using validate_result_invariant[OF scenario_E_both_present] scenario_E_both_present
  by simp

text \<open>
  C8 (as the code has it). The required-field pass visits the schema in order and tests
  the value read as \<open>data[name]\<close>: the own property of the data or, failing that, the
  member inherited from \<open>Object.prototype\<close>. On an object as data, in "first" mode, the first
  required field for which that value is \<open>undefined\<close>, or \<open>null\<close> without \<open>nullable\<close>, ends
  the validation: the result holds that one error and no data. A required field named
  like an inherited member (\<open>constructor\<close>, \<open>toString\<close>, ...) that the data does not hold is
  therefore not reported. On the data \<open>null\<close> or \<open>undefined\<close> the read of a required field
  throws, and there is no result. Scenario E is the instance with the empty object, where
  \<open>a\<close> is reported and \<open>b\<close> is not.
\<close>

theorem first_mode_required_returns:
  assumes "errorCollectionMode cfg = First"
    and "\<forall>(n, f) \<in> set pre. required f \<longrightarrow> \<not> missing f (js_get kvs n)"
    and "required fld" and "missing fld (js_get kvs name)"
  shows "validate cfg (pre @ (name, fld) # post) (VObj kvs)
           = Inr \<lparr>valid = False, errors = [required_error name], data = VNull\<rparr> \<and>
         validate cfg (pre @ (name, fld) # post) VNull = Inl TypeError \<and>
         validate cfg (pre @ (name, fld) # post) VUndefined = Inl TypeError"
proof -
  have "\<exists>(n, f) \<in> set (pre @ (name, fld) # post). required f" using assms(3) by auto
  then show ?thesis
    using required_pass_first[OF assms, of post "[]"]
      required_pass_null[of "pre @ (name, fld) # post" VNull cfg "[]"]
      required_pass_null[of "pre @ (name, fld) # post" VUndefined cfg "[]"]
    by (simp add: validate.simps failed_def)
qed

theorem first_mode_required_counterexample:
  "validate first_config [(''constructor'', plain_required TString)] (VObj [])
     = Inr \<lparr>valid = True, errors = [], data = VObj []\<rparr> \<and>
   ''constructor'' \<notin> fst ` set ([] :: obj)"
  by (simp add: eval_defs)

theorem scenario_E:
  "validate first_config scenario_E_schema (VObj [])
   = Inr \<lparr>valid = False,
          errors = [\<lparr>field = ''a'',
                     message = ''Field '' @ [CHR 0x27] @ ''a'' @ [CHR 0x27] @ '' is required'',
                     err_value = VUndefined\<rparr>],
          data = VNull\<rparr>"
  using first_mode_required_returns[of first_config "[]" "[]" "plain_required TString" "''a''"
      "[(''b'', plain_required TNumber)]"]
  by (simp add: scenario_E_schema_def missing_def eval_defs)













text \<open>
  C10. In "all" mode, a required field that is not nullable and whose value is \<open>null\<close> is
  reported twice: "is required" by pass 1 and, later in the list, "cannot be null" by
  pass 2. With that field alone in the schema and in the data, these two are the whole
  list.
\<close>

theorem required_null_reported_twice:
  assumes "errorCollectionMode cfg = All"
    and "required fld" and "\<not> nullable fld"
  shows "(map_of schema name = Some fld \<and> map_of kvs name = Some VNull \<and>
          validate cfg schema (VObj kvs) = Inr r \<longrightarrow>
          (\<exists>pre mid post.
             errors r = pre @ [required_error name] @ mid @ [null_error name] @ post)) \<and>
         validate cfg [(name, fld)] (VObj [(name, VNull)])
           = Inr \<lparr>valid = False, errors = [required_error name, null_error name], data = VNull\<rparr>"
proof -
  have a: "\<exists>pre mid post.
             errors r = pre @ [required_error name] @ mid @ [null_error name] @ post"
    if s: "map_of schema name = Some fld" and d: "map_of kvs name = Some VNull"
      and v: "validate cfg schema (VObj kvs) = Inr r"
  proof -
    from d have null: "js_get kvs name = VNull" by (rule js_get_map_of)
    from validate_all_obj[OF assms(1) v] obtain errs1 res where
      e1: "errs1 = map (\<lambda>(n, f). required_error n)
               (filter (\<lambda>(n, f). required f \<and> missing f (js_get kvs n)) schema)"
      and fp: "field_pass cfg schema (VObj kvs) (map fst kvs) errs1 [] = Continue (errors r, res)"
      by blast
    from s have "(name, fld) \<in> set schema" by (rule map_of_SomeD)
    with assms(2,3) null e1 have "required_error name \<in> set errs1"
      by (force simp: missing_def)
    then obtain pre b where errs1: "errs1 = pre @ [required_error name] @ b"
      by (auto dest: split_list)
    have "key_errors cfg schema name (js_get kvs name) = Inr [null_error name]"
      using s null assms(3) by (simp add: key_errors_def validateField_null schema_lookup_own)
    from field_pass_all_contains[OF assms(1) fp _ this] map_of_key[OF d]
    obtain c e where "errors r = errs1 @ c @ [null_error name] @ e" by auto
    with errs1 have "errors r = pre @ [required_error name] @ (b @ c) @ [null_error name] @ e"
      by simp
    then show ?thesis by blast
  qed
  have b: "validate cfg [(name, fld)] (VObj [(name, VNull)])
           = Inr \<lparr>valid = False, errors = [required_error name, null_error name], data = VNull\<rparr>"
    using assms by (simp add: validate.simps validateField_null js_get_def schema_lookup_def)
  from a b show ?thesis by blast
qed

lemma required_null_eval:
  "validate default_config
     [(''a'', plain_required TString), (''b'', plain_required TNumber)] (VObj [(''a'', VNull)])
     = Inr \<lparr>valid = False,
            errors = [required_error ''a'', required_error ''b'', null_error ''a''],
            data = VNull\<rparr>"
  by (simp add: eval_defs)

theorem required_null_reported_twice_witness:
  "errorCollectionMode default_config = All \<and>
   required (plain_required TString) \<and> \<not> nullable (plain_required TString) \<and>
   map_of [(''a'', plain_required TString), (''b'', plain_required TNumber)] ''a''
     = Some (plain_required TString) \<and>
   map_of [(''a'', VNull)] ''a'' = Some VNull \<and>
   validate default_config
     [(''a'', plain_required TString), (''b'', plain_required TNumber)] (VObj [(''a'', VNull)])
     = Inr \<lparr>valid = False,
            errors = [] @ [required_error ''a''] @ [required_error ''b''] @ [null_error ''a''] @ [],
            data = VNull\<rparr> \<and>
   validate default_config [(''a'', plain_required TString)] (VObj [(''a'', VNull)])
     = Inr \<lparr>valid = False,
            errors = [\<lparr>field = ''a'',
                       message = ''Field '' @ [CHR 0x27] @ ''a'' @ [CHR 0x27] @ '' is required'',
                       err_value = VUndefined\<rparr>,
                      \<lparr>field = ''a'',
                       message = ''Field '' @ [CHR 0x27] @ ''a'' @ [CHR 0x27] @ '' cannot be null'',
                       err_value = VNull\<rparr>],
            data = VNull\<rparr>"
proof -
  have h1: "errorCollectionMode default_config = All" by (simp add: default_config_def)
  have h2: "required (plain_required TString)" by (simp add: plain_required_def)
  have h3: "\<not> nullable (plain_required TString)" by (simp add: plain_required_def)
  from required_null_reported_twice[OF h1 h2 h3,
      of "[(''a'', plain_required TString), (''b'', plain_required TNumber)]" "''a''"
         "[(''a'', VNull)]"] h1 h2 h3 required_null_eval
  show ?thesis by (simp add: required_error_def null_error_def apos_def)
qed

text \<open>
  C5. For an object-typed field with nested \<open>fields\<close> and an object value, the errors of
  the nested validation come back with the field path \<open><fieldName>.<nested field>\<close>, joined
  by a dot, message and value unchanged; the field's own rule errors follow. Scenario B:
  the missing \<open>firstName\<close> two levels down is reported as \<open>user.profile.firstName\<close> with
  the message "Field 'firstName' is required".
\<close>

theorem nested_errors_prefixed:
  assumes "ftype fld = TObject" and "fields fld = Some sub"
    and "validate cfg sub (VObj kvs) = Inr nested"
  shows "validateField cfg fieldName (VObj kvs) fld =
     Inr (map (\<lambda>e. \<lparr>field = fieldName @ ''.'' @ field e, message = message e,
                     err_value = err_value e\<rparr>) (errors nested)
          @ rule_chain cfg fieldName (VObj kvs) (rules fld) [])"
proof -
  have "nested_object_errors cfg fieldName (VObj kvs) fld
          = Inr (map (prefix_error fieldName) (errors nested))"
    using assms by (simp add: nested_object_errors_def)
  moreover have "array_errors cfg fieldName (VObj kvs) fld = Inr []"
    by (simp add: array_errors_def split: option.splits)
  moreover have "validateType (VObj kvs) fld" using assms(1) by simp
  ultimately show ?thesis
    using validateField_parts[of "VObj kvs" fld cfg fieldName]
    by (simp add: prefix_error_def[abs_def])
qed

lemma scenario_B_nested_eval:
  "validate default_config scenario_B_profile (VObj [(''profile'', VObj [])])
   = Inr \<lparr>valid = False,
      errors = [\<lparr>field = ''profile.firstName'',
                 message = ''Field '' @ [CHR 0x27] @ ''firstName'' @ [CHR 0x27] @ '' is required'',
                 err_value = VUndefined\<rparr>],
      data = VNull\<rparr>"
  by (simp add: scenario_B_profile_def eval_defs)

theorem scenario_B:
  "validate default_config scenario_B_schema (VObj [(''user'', VObj [(''profile'', VObj [])])])
   = Inr \<lparr>valid = False,
      errors = [\<lparr>field = ''user.profile.firstName'',
                 message = ''Field '' @ [CHR 0x27] @ ''firstName'' @ [CHR 0x27] @ '' is required'',
                 err_value = VUndefined\<rparr>],
      data = VNull\<rparr>"
proof -
  let ?user = "SchemaField TObject True False [] None (DefaultValue VUndefined)
                 (Some scenario_B_profile) None"
  have h1: "ftype ?user = TObject" by simp
  have h2: "fields ?user = Some scenario_B_profile" by simp
  from nested_errors_prefixed[OF h1 h2 scenario_B_nested_eval, of "''user''"]
  have "validateField default_config ''user'' (VObj [(''profile'', VObj [])]) ?user
    = Inr [\<lparr>field = ''user.profile.firstName'',
                 message = ''Field '' @ [CHR 0x27] @ ''firstName'' @ [CHR 0x27] @ '' is required'',
                 err_value = VUndefined\<rparr>]"
    by simp
  then show ?thesis
    by (simp add: scenario_B_schema_def scenario_B_profile_def validate.simps default_config_def
        js_get_def schema_lookup_def plain_required_def)
qed

text \<open>
  C6. For a value that passes the early exits of \<open>validateField\<close> (not \<open>null\<close>, not an
  optional \<open>undefined\<close>, of the declared type), the errors are those of the nested object,
  then those of the array elements, element after element in index order, then those of
  the rule chain. Scenario C: \<open>tags[0]\<close> (too short) comes first, \<open>tags\<close> (not unique)
  second, and there is no other error.
\<close>

theorem field_errors_in_order:
  assumes "v \<noteq> VNull" and "\<not> (v = VUndefined \<and> \<not> required fld)" and "validateType v fld"
    and "validateField cfg fieldName v fld = Inr es"
  shows "\<exists>eo ea.
     nested_object_errors cfg fieldName v fld = Inr eo \<and>
     array_errors cfg fieldName v fld = Inr ea \<and>
     es = eo @ ea @ rule_chain cfg fieldName v (rules fld) [] \<and>
     (\<forall>itemSchema xs. items fld = Some itemSchema \<and> v = VArr xs \<and> ftype fld = TArray \<longrightarrow>
        (\<exists>ess. length ess = length xs \<and>
           (\<forall>j < length xs. item_errors cfg fieldName itemSchema j (xs ! j) = Inr (ess ! j)) \<and>
           ea = concat ess))"
proof -
  from assms(4) validateField_parts[OF assms(1-3), of cfg fieldName]
  obtain eo ea where eo: "nested_object_errors cfg fieldName v fld = Inr eo"
    and ea: "array_errors cfg fieldName v fld = Inr ea"
    and es: "es = eo @ ea @ rule_chain cfg fieldName v (rules fld) []"
    by (auto split: sum.splits)
  have "\<exists>ess. length ess = length xs \<and>
           (\<forall>j < length xs. item_errors cfg fieldName itemSchema j (xs ! j) = Inr (ess ! j)) \<and>
           ea = concat ess"
    if "items fld = Some itemSchema" "v = VArr xs" "ftype fld = TArray" for itemSchema xs
  proof -
    from ea that have "validate_items cfg fieldName itemSchema xs 0 [] = Inr ea"
      by (simp add: array_errors_def)
    from validate_items_Inr[OF this] show ?thesis by simp
  qed
  with eo ea es show ?thesis by blast
qed

theorem scenario_C:
  "validate default_config scenario_C_schema
     (VObj [(''tags'', VArr [VStr ''a'', VStr ''bb'', VStr ''bb''])])
   = Inr \<lparr>valid = False,
      errors = [\<lparr>field = ''tags[0]'', message = ''tags[0] must be at least 2 characters long'',
                 err_value = VStr ''a''\<rparr>,
                \<lparr>field = ''tags'', message = ''tags must contain unique items'',
                 err_value = VArr [VStr ''a'', VStr ''bb'', VStr ''bb'']\<rparr>],
      data = VNull\<rparr> \<and>
   array_errors default_config ''tags'' (VArr [VStr ''a'', VStr ''bb'', VStr ''bb'']) scenario_C_tags
     = Inr [\<lparr>field = ''tags[0]'', message = ''tags[0] must be at least 2 characters long'',
              err_value = VStr ''a''\<rparr>] \<and>
   rule_chain default_config ''tags'' (VArr [VStr ''a'', VStr ''bb'', VStr ''bb''])
       (rules scenario_C_tags) []
     = [\<lparr>field = ''tags'', message = ''tags must contain unique items'',
                 err_value = VArr [VStr ''a'', VStr ''bb'', VStr ''bb'']\<rparr>]"
proof -
  let ?v = "VArr [VStr ''a'', VStr ''bb'', VStr ''bb'']"
  let ?es = "[\<lparr>field = ''tags[0]'', message = ''tags[0] must be at least 2 characters long'',
                 err_value = VStr ''a''\<rparr>,
                \<lparr>field = ''tags'', message = ''tags must contain unique items'',
                 err_value = ?v\<rparr>]"
  have h1: "?v \<noteq> VNull" by simp
  have h2: "\<not> (?v = VUndefined \<and> \<not> required scenario_C_tags)" by simp
  have h3: "validateType ?v scenario_C_tags" by (simp add: scenario_C_tags_def)
  have h4: "validateField default_config ''tags'' ?v scenario_C_tags = Inr ?es"
    by (simp add: scenario_C_tags_def eval_defs)
  from field_errors_in_order[OF h1 h2 h3 h4]
  obtain eo ea where "array_errors default_config ''tags'' ?v scenario_C_tags = Inr ea"
    and "?es = eo @ ea @ rule_chain default_config ''tags'' ?v (rules scenario_C_tags) []"
    by blast
  moreover have "array_errors default_config ''tags'' ?v scenario_C_tags
     = Inr [\<lparr>field = ''tags[0]'', message = ''tags[0] must be at least 2 characters long'',
              err_value = VStr ''a''\<rparr>]"
    by (simp add: array_errors_def scenario_C_tags_def eval_defs)
  moreover have "rule_chain default_config ''tags'' ?v (rules scenario_C_tags) []
     = [\<lparr>field = ''tags'', message = ''tags must contain unique items'', err_value = ?v\<rparr>]"
    by (simp add: scenario_C_tags_def eval_defs)
  moreover have "validate default_config scenario_C_schema (VObj [(''tags'', ?v)])
     = Inr \<lparr>valid = False, errors = ?es, data = VNull\<rparr>"
    by (simp add: scenario_C_schema_def scenario_C_tags_def eval_defs)
  ultimately show ?thesis by simp
qed

text \<open>
  C2. In "first" mode the result for the first failing field is meant to hold one error.
  On the array of scenario C the code returns two: \<open>validateField\<close> visits every element
  and then the rule chain, whatever the mode, and \<open>validate\<close> appends all the errors of the
  field before it returns.
\<close>

theorem first_mode_returns_two_errors:
  "validate first_config scenario_C_schema
     (VObj [(''tags'', VArr [VStr ''a'', VStr ''bb'', VStr ''bb''])])
   = Inr \<lparr>valid = False,
      errors = [\<lparr>field = ''tags[0]'', message = ''tags[0] must be at least 2 characters long'',
                 err_value = VStr ''a''\<rparr>,
                \<lparr>field = ''tags'', message = ''tags must contain unique items'',
                 err_value = VArr [VStr ''a'', VStr ''bb'', VStr ''bb'']\<rparr>],
      data = VNull\<rparr>"
  by (simp add: scenario_C_schema_def scenario_C_tags_def eval_defs)

text \<open>
  C9 (as the code has it). Idempotence on success holds for a plain object as input (the
  input \<open>validate\<close> expects), not for every input. If the validation of an object without
  an own key \<open>__proto__\<close> is valid with data \<open>out\<close>, and every schema field whose value read
  from \<open>out\<close> differs from its value read from the input (a transform or a default produced
  it) still has a value that passes the required test and the field's own validation, then
  validating \<open>out\<close> against the same schema with transforms disabled is valid with no
  error. For an array or a string as input the data of a valid result is a plain object of
  the indices, which has lost \<open>length\<close>: with a required field \<open>length\<close> and the input
  \<open>[7]\<close> the validation is valid with data \<open>{0: 7}\<close>, and validating that data again
  reports that \<open>length\<close> is required, although the schema has no transform and no default.
\<close>

theorem revalidation_succeeds:
  assumes "validate cfg schema (VObj kvs) = Inr r" and "valid r" and "data r = VObj out"
    and "\<forall>(n, f) \<in> set schema. js_get out n \<noteq> js_get kvs n \<longrightarrow>
           (required f \<longrightarrow> \<not> missing f (js_get out n)) \<and>
           validateField (cfg\<lparr>transformEnabled := False\<rparr>) n (js_get out n) f = Inr []"
    and "''__proto__'' \<notin> fst ` set kvs"
  shows "\<exists>r'. validate (cfg\<lparr>transformEnabled := False\<rparr>) schema (data r) = Inr r' \<and>
              valid r' \<and> errors r' = []"
proof -
  let ?cfg' = "cfg\<lparr>transformEnabled := False\<rparr>"
  let ?pass2 = "assemble cfg schema kvs (map fst kvs) []"
  note v = validate_valid_obj[OF assms(1,2)]
  from v(4) assms(3) have out: "out = default_pass schema ?pass2" by simp
  have keys2: "fst ` set ?pass2 = fst ` set kvs" by (simp add: assemble_keys)
  have a: "\<forall>(n, f) \<in> set schema. required f \<longrightarrow> \<not> missing f (js_get out n)"
  proof (clarify)
    fix n f assume nf: "(n, f) \<in> set schema" and req: "required f"
      and m: "missing f (js_get out n)"
    show False
    proof (cases "js_get out n = js_get kvs n")
      case True
      with v(1) nf req m show False by auto
    next
      case False
      with assms(4) nf req m show False by auto
    qed
  qed
  have b: "\<forall>k \<in> fst ` set out. key_ok ?cfg' schema k (js_get out k)"
  proof
    fix k assume k: "k \<in> fst ` set out"
    with out default_pass_keys[of schema ?pass2]
    have k': "k \<in> fst ` set kvs \<or> k \<in> fst ` set schema"
      by (auto simp: assemble_keys)
    show "key_ok ?cfg' schema k (js_get out k)"
    proof (cases "map_of schema k")
      case None
      then have ns: "k \<notin> fst ` set schema" by (simp add: map_of_eq_None_iff)
      with k' have kk: "k \<in> fst ` set kvs" by simp
      with v(2) have ok: "key_ok cfg schema k (js_get kvs k)" by blast
      show ?thesis
      proof (cases "k \<in> set inherited_names")
        case False
        with None have "schema_lookup schema k = None" by (simp add: schema_lookup_None)
        with ok show ?thesis by (simp add: key_ok_def)
      next
        case True
        with None have look: "schema_lookup schema k = Some inherited_field"
          by (rule schema_lookup_inherited)
        with ok have u: "js_get kvs k = VUndefined"
          by (auto simp: key_ok_def validateField_inherited split: if_splits)
        from kk keys2 have "k \<in> fst ` set ?pass2" by simp
        then have "js_get ?pass2 k = VUndefined"
          using kk look u
          by (simp add: js_get_own[of k ?pass2] assemble_get out_value_def stored_value_def
              inherited_field_def)
        with ns out have "js_get out k = VUndefined" by (simp add: default_pass_other_js)
        with look show ?thesis by (simp add: key_ok_def validateField_inherited)
      qed
    next
      case (Some f)
      then have nf: "(k, f) \<in> set schema" by (rule map_of_SomeD)
      from Some have look: "schema_lookup schema k = Some f" by (rule schema_lookup_own)
      have "validateField ?cfg' k (js_get out k) f = Inr []"
      proof (cases "js_get out k = js_get kvs k")
        case False
        with assms(4) nf show ?thesis by auto
      next
        case True
        show ?thesis
        proof (cases "k \<in> fst ` set kvs")
          case True
          with v(2) have "key_ok cfg schema k (js_get kvs k)" by blast
          with look \<open>js_get out k = js_get kvs k\<close> show ?thesis
            by (simp add: key_ok_def validateField_transform)
        next
          case False
          with keys2 have n2: "k \<notin> fst ` set ?pass2" by simp
          with k out have "js_get ?pass2 k = VUndefined"
            by (auto simp: default_pass_key_set)
          with n2 False have u: "js_get kvs k = VUndefined"
            by (simp add: js_get_absent)
          with v(1) nf have "\<not> required f" by (auto simp: missing_def)
          with u \<open>js_get out k = js_get kvs k\<close> show ?thesis
            by (simp add: validateField.simps)
        qed
      qed
      with look show ?thesis by (simp add: key_ok_def)
    qed
  qed
  from validate_obj_ok[OF a b] assms(3) show ?thesis by simp
qed

theorem revalidation_counterexample:
  "validate default_config [(''length'', plain_required TNumber)] (VArr [VNum 7])
     = Inr \<lparr>valid = True, errors = [], data = VObj [(''0'', VNum 7)]\<rparr> \<and>
   validate (default_config\<lparr>transformEnabled := False\<rparr>) [(''length'', plain_required TNumber)]
       (VObj [(''0'', VNum 7)])
     = Inr \<lparr>valid = False,
            errors = [\<lparr>field = ''length'',
                       message = ''Field '' @ [CHR 0x27] @ ''length'' @ [CHR 0x27] @ '' is required'',
                       err_value = VUndefined\<rparr>],
            data = VNull\<rparr>"
  by (simp add: eval_defs array_index_def)

lemma idempotence_eval:
  "validate default_config idempotence_schema (VObj [(''name'', VStr ''jo'')])
     = Inr \<lparr>valid = True, errors = [],
            data = VObj [(''name'', VStr ''jo!''), (''age'', VNum 18)]\<rparr>"
  by (simp add: idempotence_schema_def eval_defs)

theorem revalidation_succeeds_witness:
  "validate default_config idempotence_schema (VObj [(''name'', VStr ''jo'')])
     = Inr \<lparr>valid = True, errors = [],
            data = VObj [(''name'', VStr ''jo!''), (''age'', VNum 18)]\<rparr> \<and>
   ''__proto__'' \<notin> fst ` set [(''name'', VStr ''jo'')] \<and>
   validate (default_config\<lparr>transformEnabled := False\<rparr>) idempotence_schema
       (VObj [(''name'', VStr ''jo!''), (''age'', VNum 18)])
     = Inr \<lparr>valid = True, errors = [],
            data = VObj [(''name'', VStr ''jo!''), (''age'', VNum 18)]\<rparr>"
proof -
  let ?r = "\<lparr>valid = True, errors = [],
            data = VObj [(''name'', VStr ''jo!''), (''age'', VNum 18)]\<rparr>"
  let ?out = "[(''name'', VStr ''jo!''), (''age'', VNum 18)]"
  have h2: "valid ?r" by simp
  have h3: "data ?r = VObj ?out" by simp
  have h4: "\<forall>(n, f) \<in> set idempotence_schema.
      js_get ?out n \<noteq> js_get [(''name'', VStr ''jo'')] n \<longrightarrow>
           (required f \<longrightarrow> \<not> missing f (js_get ?out n)) \<and>
           validateField (default_config\<lparr>transformEnabled := False\<rparr>) n (js_get ?out n) f = Inr []"
    by (simp add: idempotence_schema_def missing_def eval_defs)
  have h5: "''__proto__'' \<notin> fst ` set [(''name'', VStr ''jo'')]" by simp
  from revalidation_succeeds[OF idempotence_eval h2 h3 h4 h5]
  obtain r' where "validate (default_config\<lparr>transformEnabled := False\<rparr>) idempotence_schema
       (data ?r) = Inr r'" "valid r'" by blast
  moreover have "validate (default_config\<lparr>transformEnabled := False\<rparr>) idempotence_schema
       (VObj ?out) = Inr ?r"
    by (simp add: idempotence_schema_def eval_defs)
  ultimately show ?thesis using idempotence_eval h5 by simp
qed

end
